theory Spec2Isabelle
  imports Main "HOL-Library.Sublist"
begin

section \<open>The ISY event stream (pyisy/events.py)\<close>

text \<open>
  A shallow embedding of the class \<open>EventStream\<close>. Bytes and text are both
  \<^typ>\<open>string\<close> (lists of 8-bit characters). An exception of the source is a value of
  \<open>error\<close>, returned on the left of a sum next to the object's state at the moment of
  the raise. The socket, the clock and the \<open>isy\<close> collaborators are the environment:
  what they deliver is an argument of the operation, what they receive is recorded in the
  state. The collaborators, the logger and the on-lost callback are taken to return
  without raising. An operation is modelled from its call to its return: what another
  thread does in between is not part of the model. The interpreter is Python 3.
\<close>

subsection \<open>Python primitives\<close>

datatype error =
  ValueError | TypeError | KeyError | NotImplementedError | OSError | UnicodeDecodeError

definition HTTP_HEADER_SEPERATOR :: string where
  "HTTP_HEADER_SEPERATOR = [CHR 0x0D, CHR 0x0A]"

definition HTTP_HEADER_BODY_SEPERATOR :: string where
  "HTTP_HEADER_BODY_SEPERATOR = [CHR 0x0D, CHR 0x0A, CHR 0x0D, CHR 0x0A]"

definition HTTP_HEADER_BODY_SEPERATOR_LEN :: nat where
  "HTTP_HEADER_BODY_SEPERATOR_LEN = 4"

text \<open>\<open>bytes.find(sub)\<close>: the least index where \<open>sub\<close> occurs; \<open>None\<close> stands for -1.\<close>

fun py_find :: "string \<Rightarrow> string \<Rightarrow> nat option" where
  "py_find sub [] = (if sub = [] then Some 0 else None)"
| "py_find sub (x # xs) =
     (if prefix sub (x # xs) then Some 0 else map_option Suc (py_find sub xs))"

text \<open>
  \<open>bytes.split(sep)\<close>: cut at the occurrences of \<open>sep\<close>, left to right, without overlap.
  Python raises on an empty separator; the only separator of the source is not empty.
\<close>

function py_split :: "string \<Rightarrow> string \<Rightarrow> string list" where
  "py_split sep xs =
     (if sep = [] then [xs]
      else case py_find sep xs of
             None \<Rightarrow> [xs]
           | Some i \<Rightarrow> take i xs # py_split sep (drop (i + length sep) xs))"
  by pat_completeness auto
termination
proof (relation "measure (\<lambda>(sep, xs). length xs)")
  show "wf (measure (\<lambda>(sep, xs). length xs))" by simp
next
  fix sep xs :: string and i
  assume "sep \<noteq> []" and "py_find sep xs = Some i"
  then have "xs \<noteq> []" by (cases xs) auto
  with \<open>sep \<noteq> []\<close>
  show "((sep, drop (i + length sep) xs), (sep, xs)) \<in> measure (\<lambda>(sep, xs). length xs)"
    by (cases sep) auto
qed

declare py_split.simps [simp del]

text \<open>\<open>bytes.split(sep, 1)\<close> for a one-byte separator: at most one cut, at the first occurrence.\<close>

definition py_split1 :: "char \<Rightarrow> string \<Rightarrow> string list" where
  "py_split1 c xs =
     (if c \<in> set xs then [takeWhile (\<lambda>x. x \<noteq> c) xs, tl (dropWhile (\<lambda>x. x \<noteq> c) xs)]
      else [xs])"

text \<open>ASCII whitespace as \<open>bytes.strip()\<close> and \<open>int()\<close> see it.\<close>

definition py_isspace :: "char \<Rightarrow> bool" where
  "py_isspace c \<longleftrightarrow> c \<in> {CHR 0x20, CHR 0x09, CHR 0x0A, CHR 0x0B, CHR 0x0C, CHR 0x0D}"

definition py_strip :: "string \<Rightarrow> string" where
  "py_strip xs = rev (dropWhile py_isspace (rev (dropWhile py_isspace xs)))"

definition py_lower_char :: "char \<Rightarrow> char" where
  "py_lower_char c =
     (if 65 \<le> (of_char c :: nat) \<and> (of_char c :: nat) \<le> 90
      then char_of (of_char c + (32 :: nat)) else c)"

definition py_lower :: "string \<Rightarrow> string" where
  "py_lower xs = map py_lower_char xs"

text \<open>
  \<open>int(x)\<close> on bytes or text, base ten: surrounding whitespace, an optional sign, then
  decimal digits, with single underscores allowed between digits. \<open>None\<close> stands for
  the ValueError of the source. (The interpreter's limit on the number of digits is not
  modelled. Text is a list of 8-bit characters here, so the digits and the whitespace
  beyond ASCII that Python accepts in text are outside the model.)
\<close>

definition py_isdigit :: "char \<Rightarrow> bool" where
  "py_isdigit c \<longleftrightarrow> 48 \<le> (of_char c :: nat) \<and> (of_char c :: nat) \<le> 57"

fun py_digits :: "bool \<Rightarrow> int \<Rightarrow> string \<Rightarrow> int option" where
  "py_digits after_digit acc [] = (if after_digit then Some acc else None)"
| "py_digits after_digit acc (c # cs) =
     (if py_isdigit c then py_digits True (acc * 10 + (int (of_char c) - 48)) cs
      else if c = CHR ''_'' \<and> after_digit then py_digits False acc cs
      else None)"

definition py_int :: "string \<Rightarrow> int option" where
  "py_int xs =
     (case py_strip xs of
        [] \<Rightarrow> None
      | c # cs \<Rightarrow>
          if c = CHR ''-'' then map_option uminus (py_digits False 0 cs)
          else if c = CHR ''+'' then py_digits False 0 cs
          else py_digits False 0 (c # cs))"

text \<open>Slices \<open>xs[0:n]\<close> and \<open>xs[n:]\<close>; a negative \<open>n\<close> counts from the end.\<close>

definition py_slice_to :: "string \<Rightarrow> int \<Rightarrow> string" where
  "py_slice_to xs n = (if 0 \<le> n then take (nat n) xs else take (length xs - nat (- n)) xs)"

definition py_slice_from :: "string \<Rightarrow> int \<Rightarrow> string" where
  "py_slice_from xs n = (if 0 \<le> n then drop (nat n) xs else drop (length xs - nat (- n)) xs)"

text \<open>Truthiness of an optional integer: \<open>not x\<close> holds for \<open>None\<close> and for 0.\<close>

definition py_not :: "int option \<Rightarrow> bool" where
  "py_not x \<longleftrightarrow> x = None \<or> x = Some 0"

subsection \<open>Values, collaborators and the object state\<close>

datatype pyval = PNone | PStr string | PInt int

text \<open>
  What the \<open>isy\<close> collaborators and the on-lost callback receive, in order of the calls.
  Only log records of level warning and above are kept.
\<close>

datatype 'doc call =
    Nodes_update_received 'doc
  | Nodes_control_message_received 'doc
  | Variables_update_received 'doc
  | Programs_update_received 'doc
  | Programs_update
  | On_lost_function

datatype log_record =
    Malformed_XML string
  | Could_not_connect
  | Lost_connection
  | Read_error error

text \<open>
  The fields of \<open>EventStream\<close>, the leading underscore dropped. \<open>thread\<close> is \<open>None\<close>
  before a thread was made and \<open>Some alive\<close> after; \<open>writer\<close> is \<open>None\<close> or the file
  object with what was written to it; \<open>lasthb\<close> is a time in microseconds. The TLS
  certificate is not modelled.
\<close>

record 'doc event_stream =
  running :: bool
  writer :: "string list option"
  thread :: "bool option"
  subscribed :: bool
  connected :: bool
  lasthb :: "int option"
  hbwait :: int
  on_lost_function :: bool
  data :: "string \<rightharpoonup> pyval"
  event_buffer :: string
  event_content_length :: "int option"
  calls :: "'doc call list"
  isy_log :: "log_record list"

definition init :: "bool \<Rightarrow> (string \<rightharpoonup> pyval) \<Rightarrow> 'doc event_stream" where
  "init on_lost_func connection_info =
     \<lparr> running = False, writer = None, thread = None, subscribed = False,
       connected = False, lasthb = None, hbwait = 0,
       on_lost_function = on_lost_func, data = connection_info,
       event_buffer = [], event_content_length = None, calls = [], isy_log = [] \<rparr>"

subsection \<open>Frame assembly\<close>

text \<open>
  The loop of \<open>_parse_headers\<close> over the header lines: the running value of
  \<open>_event_content_length\<close> is threaded, and returned also when a line raises.
\<close>

fun scan_headers :: "int option \<Rightarrow> string list \<Rightarrow> error option \<times> int option" where
  "scan_headers cl [] = (None, cl)"
| "scan_headers cl (header # headers) =
     (case py_split1 (CHR '':'') header of
        [header_name, header_value] \<Rightarrow>
          if py_lower (py_strip header_name) \<noteq> ''content-length''
          then scan_headers cl headers
          else (case py_int (py_strip header_value) of
                  None \<Rightarrow> (Some ValueError, cl)
                | Some n \<Rightarrow> scan_headers (Some n) headers)
      | _ \<Rightarrow> (Some ValueError, cl))"

definition parse_headers ::
  "nat \<Rightarrow> 'doc event_stream \<Rightarrow> (error + unit) \<times> 'doc event_stream" where
  "parse_headers seperator_position s =
     (let headers = take seperator_position (event_buffer s);
          s1 = s\<lparr>event_buffer :=
                   drop (seperator_position + HTTP_HEADER_BODY_SEPERATOR_LEN) (event_buffer s)\<rparr>;
          (err, cl) = scan_headers (event_content_length s1)
                        (tl (py_split HTTP_HEADER_SEPERATOR headers));
          s2 = s1\<lparr>event_content_length := cl\<rparr>
      in case err of
           Some e \<Rightarrow> (Inl e, s2)
         | None \<Rightarrow> if py_not cl then (Inl ValueError, s2) else (Inr (), s2))"

text \<open>
  Lines 173 to 187 of \<open>_read_one_response_or_timeout\<close>: with a content length known,
  compare and slice. \<open>Inr None\<close> is the \<open>continue\<close> of the source (read again).
  A comparison with no content length cannot be reached (the headers were parsed or raised).
\<close>

definition take_body ::
  "'doc event_stream \<Rightarrow> (error + string option) \<times> 'doc event_stream" where
  "take_body s =
     (case event_content_length s of
        None \<Rightarrow> (Inl TypeError, s)
      | Some n \<Rightarrow>
          if int (length (event_buffer s)) < n then (Inr None, s)
          else (Inr (Some (py_slice_to (event_buffer s) n)),
                s\<lparr>event_buffer := py_slice_from (event_buffer s) n,
                  event_content_length := None\<rparr>))"

text \<open>Lines 162 to 187: what one pass of the loop does with the buffer once the socket was read.\<close>

definition assemble ::
  "'doc event_stream \<Rightarrow> (error + string option) \<times> 'doc event_stream" where
  "assemble s =
     (if py_not (event_content_length s) then
        (case py_find HTTP_HEADER_BODY_SEPERATOR (event_buffer s) of
           None \<Rightarrow> (Inr None, s)
         | Some seperator_position \<Rightarrow>
             (case parse_headers seperator_position s of
                (Inl e, s') \<Rightarrow> (Inl e, s')
              | (Inr _, s') \<Rightarrow> take_body s'))
      else take_body s)"

text \<open>
  Feeding one chunk: line 154 (append what was received), then one pass. The body is the
  raw bytes of line 181: the decoding of lines 189 and 190 is not part of \<open>feed\<close>, it is
  done in \<open>read_one_response_or_timeout\<close> below.
\<close>

definition feed ::
  "string \<Rightarrow> 'doc event_stream \<Rightarrow> (error + string option) \<times> 'doc event_stream" where
  "feed new_data s = assemble (s\<lparr>event_buffer := event_buffer s @ new_data\<rparr>)"

subsection \<open>What the module imports\<close>

text \<open>
  The constants of \<open>constants.py\<close>, the message templates of \<open>strings.py\<close>, the
  helpers of \<open>helpers.py\<close> and the library functions (\<open>minidom.parseString\<close>,
  \<open>str.format\<close>, \<open>bytes.decode\<close>) are parameters. \<open>parseString\<close> gives \<open>None\<close>
  for the ExpatError of the source, \<open>format\<close> and \<open>decode\<close> give \<open>None\<close> where the
  library raises.
\<close>

record message =
  head :: string
  body :: string

record 'doc imported =
  ATTR_ACTION :: string
  ATTR_CONTROL :: string
  ATTR_ID :: string
  ATTR_STREAM_ID :: string
  ATTR_VAR :: string
  PROP_STATUS :: string
  TAG_NODE :: string
  SUB_MSG :: message
  RESUB_MSG :: message
  UNSUB_MSG :: message
  parseString :: "string \<Rightarrow> 'doc option"
  value_from_xml :: "'doc \<Rightarrow> string \<Rightarrow> string option"
  attr_from_xml :: "'doc \<Rightarrow> string \<Rightarrow> string \<Rightarrow> pyval"
  format :: "string \<Rightarrow> (string \<rightharpoonup> pyval) \<Rightarrow> string option"
  decode :: "string \<Rightarrow> string option"

subsection \<open>Subscription messages and the socket\<close>

text \<open>
  \<open>_create_message\<close>: the body is formatted with the connection data, the head with the
  connection data and the body's length. A key \<open>length\<close> among the connection data is a
  duplicate keyword argument. KeyError stands for whatever \<open>str.format\<close> raises.
\<close>

definition create_message ::
  "'doc imported \<Rightarrow> message \<Rightarrow> 'doc event_stream \<Rightarrow> error + string" where
  "create_message im msg s =
     (case format im (body msg) (data s) of
        None \<Rightarrow> Inl KeyError
      | Some body' \<Rightarrow>
          if data s ''length'' \<noteq> None then Inl TypeError
          else (case format im (head msg) ((data s)(''length'' \<mapsto> PInt (int (length body')))) of
                  None \<Rightarrow> Inl KeyError
                | Some head' \<Rightarrow> Inr (head' @ body')))"

text \<open>
  \<open>write\<close> (primed: the plain name is reserved); \<open>io_ok\<close> tells whether the file
  object accepts the write and the flush.
\<close>

definition write' ::
  "bool \<Rightarrow> string \<Rightarrow> 'doc event_stream \<Rightarrow> (error + unit) \<times> 'doc event_stream" where
  "write' io_ok msg s =
     (case writer s of
        None \<Rightarrow> (Inl NotImplementedError, s)
      | Some out \<Rightarrow>
          if io_ok then (Inr (), s\<lparr>writer := Some (out @ [msg])\<rparr>) else (Inl OSError, s))"

text \<open>\<open>connect\<close>; \<open>net_ok\<close> tells whether the socket connects.\<close>

definition connect ::
  "bool \<Rightarrow> 'doc event_stream \<Rightarrow> (error + bool) \<times> 'doc event_stream" where
  "connect net_ok s =
     (if \<not> connected s then
        if data s ''addr'' = None \<or> data s ''port'' = None then (Inl KeyError, s)
        else if \<not> net_ok then
          (let s1 = s\<lparr>isy_log := isy_log s @ [Could_not_connect]\<rparr>;
               s2 = (if on_lost_function s1
                     then s1\<lparr>calls := calls s1 @ [On_lost_function]\<rparr> else s1)
           in (Inr False, s2))
        else (Inr True, s\<lparr>writer := Some [], connected := True\<rparr>)
      else (Inr True, s))"

definition disconnect :: "'doc event_stream \<Rightarrow> 'doc event_stream" where
  "disconnect s =
     (if connected s
      then s\<lparr>connected := False, subscribed := False, running := False\<rparr>
      else s)"

definition subscribe ::
  "'doc imported \<Rightarrow> bool \<Rightarrow> 'doc event_stream \<Rightarrow> (error + unit) \<times> 'doc event_stream" where
  "subscribe im io_ok s =
     (if \<not> subscribed s \<and> connected s then
        (case create_message im
                (if data s (ATTR_STREAM_ID im) = None then SUB_MSG im else RESUB_MSG im) s of
           Inl e \<Rightarrow> (Inl e, s)
         | Inr msg \<Rightarrow>
             (case write' io_ok msg s of
                (Inl e, s') \<Rightarrow> (Inl e, s')
              | (Inr _, s') \<Rightarrow> (Inr (), s'\<lparr>subscribed := True\<rparr>)))
      else (Inr (), s))"

definition unsubscribe ::
  "'doc imported \<Rightarrow> bool \<Rightarrow> 'doc event_stream \<Rightarrow> (error + unit) \<times> 'doc event_stream" where
  "unsubscribe im io_ok s =
     (if subscribed s \<and> connected s then
        (case create_message im (UNSUB_MSG im) s of
           Inl e \<Rightarrow> (Inl e, s)
         | Inr msg \<Rightarrow>
             (case write' io_ok msg s of
                (Inl e, s') \<Rightarrow> (Inl e, s')
              | (Inr _, s') \<Rightarrow> (Inr (), disconnect (s'\<lparr>subscribed := False\<rparr>))))
      else (Inr (), s))"

subsection \<open>Heartbeat\<close>

text \<open>
  Times are microseconds. \<open>heartbeat_time\<close> is the \<open>seconds\<close> field of the difference
  of two datetimes: whole seconds, within the day.
\<close>

definition timedelta_seconds :: "int \<Rightarrow> int" where
  "timedelta_seconds us = (us div 1000000) mod 86400"

definition heartbeat_time :: "int \<Rightarrow> 'doc event_stream \<Rightarrow> int" where
  "heartbeat_time now s =
     (case lasthb s of Some t \<Rightarrow> timedelta_seconds (now - t) | None \<Rightarrow> 0)"

definition lost_connect :: "'doc event_stream \<Rightarrow> 'doc event_stream" where
  "lost_connect s =
     (let s1 = disconnect s;
          s2 = s1\<lparr>isy_log := isy_log s1 @ [Lost_connection]\<rparr>
      in if on_lost_function s2 then s2\<lparr>calls := calls s2 @ [On_lost_function]\<rparr> else s2)"

subsection \<open>Routing\<close>

definition update_received :: "'doc imported \<Rightarrow> 'doc \<Rightarrow> 'doc event_stream \<Rightarrow> 'doc event_stream" where
  "update_received im xmldoc s =
     s\<lparr>data := (data s)(ATTR_STREAM_ID im \<mapsto> attr_from_xml im xmldoc ''Event'' (ATTR_STREAM_ID im))\<rparr>"

definition dispatch :: "'doc call \<Rightarrow> 'doc event_stream \<Rightarrow> 'doc event_stream" where
  "dispatch c s = s\<lparr>calls := calls s @ [c]\<rparr>"

text \<open>\<open>_route_message\<close>; \<open>now\<close> is what the clock shows when a heartbeat is handled.\<close>

definition route_message ::
  "'doc imported \<Rightarrow> int \<Rightarrow> string \<Rightarrow> 'doc event_stream \<Rightarrow> (error + unit) \<times> 'doc event_stream" where
  "route_message im now msg s =
     (case parseString im msg of
        None \<Rightarrow> (Inr (), s\<lparr>isy_log := isy_log s @ [Malformed_XML msg]\<rparr>)
      | Some xmldoc \<Rightarrow>
          (let s1 = (if sublist (ATTR_STREAM_ID im @ ''='') msg \<and> data s (ATTR_STREAM_ID im) = None
                     then update_received im xmldoc s else s)
           in case value_from_xml im xmldoc (ATTR_CONTROL im) of
                None \<Rightarrow> (Inr (), s1)
              | Some cntrl \<Rightarrow>
                  if cntrl = [] then (Inr (), s1)
                  else if cntrl = ''_0'' then
                    (let s2 = s1\<lparr>lasthb := Some now\<rparr>
                     in case value_from_xml im xmldoc (ATTR_ACTION im) of
                          None \<Rightarrow> (Inl TypeError, s2)
                        | Some action \<Rightarrow>
                            (case py_int action of
                               None \<Rightarrow> (Inl ValueError, s2)
                             | Some n \<Rightarrow> (Inr (), s2\<lparr>hbwait := n\<rparr>)))
                  else if cntrl = PROP_STATUS im then
                    (Inr (), dispatch (Nodes_update_received xmldoc) s1)
                  else if hd cntrl \<noteq> CHR ''_'' then
                    (Inr (), dispatch (Nodes_control_message_received xmldoc) s1)
                  else if cntrl = ''_1'' then
                    (if sublist (''<'' @ ATTR_VAR im) msg then
                       (Inr (), dispatch (Variables_update_received xmldoc) s1)
                     else if sublist (''<'' @ ATTR_ID im @ ''>'') msg then
                       (Inr (), dispatch (Programs_update_received xmldoc) s1)
                     else if sublist (''<'' @ TAG_NODE im @ ''>'') msg \<and> sublist ''['' msg then
                       (Inr (), s1)
                     else (Inr (), dispatch Programs_update s1))
                  else (Inr (), s1)))"

subsection \<open>Reading the socket\<close>

text \<open>
  One \<open>select\<close> of the source is one \<open>poll\<close>: a timeout, or a readable socket with the
  results of the \<open>recv\<close> calls that follow: chunks, and how the draining ends when the
  chunks are used up (an empty read, \<open>SSLWantReadError\<close>, or another socket error). An
  empty chunk is an empty read.
\<close>

datatype recv_end = Empty_read | Want_read | Recv_error

datatype poll = Timeout | Readable "string list" recv_end

fun drain :: "string list \<Rightarrow> recv_end \<Rightarrow> string \<Rightarrow> string \<times> recv_end" where
  "drain [] e buf = (buf, e)"
| "drain (new_data # rest) e buf =
     (if length new_data = 0 then (buf, Empty_read) else drain rest e (buf @ new_data))"

text \<open>
  \<open>_read_one_response_or_timeout\<close> on the polls the environment delivers. The first
  component is \<open>None\<close> when the polls are used up and the loop has not returned: it is
  still waiting in \<open>select\<close>.
\<close>

fun read_one_response_or_timeout ::
  "'doc imported \<Rightarrow> poll list \<Rightarrow> 'doc event_stream
    \<Rightarrow> (error + string option) option \<times> 'doc event_stream" where
  "read_one_response_or_timeout im [] s = (None, s)"
| "read_one_response_or_timeout im (Timeout # polls) s = (Some (Inr None), s)"
| "read_one_response_or_timeout im (Readable chunks e # polls) s =
     (case drain chunks e (event_buffer s) of
        (buf, Want_read) \<Rightarrow> read_one_response_or_timeout im polls (s\<lparr>event_buffer := buf\<rparr>)
      | (buf, Recv_error) \<Rightarrow> (Some (Inl OSError), s\<lparr>event_buffer := buf\<rparr>)
      | (buf, Empty_read) \<Rightarrow>
          (case assemble (s\<lparr>event_buffer := buf\<rparr>) of
             (Inl err, s') \<Rightarrow> (Some (Inl err), s')
           | (Inr None, s') \<Rightarrow> read_one_response_or_timeout im polls s'
           | (Inr (Some body'), s') \<Rightarrow>
               (case decode im body' of
                  None \<Rightarrow> (Some (Inl UnicodeDecodeError), s')
                | Some str \<Rightarrow> (Some (Inr (Some str)), s'))))"

subsection \<open>The watch loop\<close>

text \<open>
  What the environment delivers to one pass of the loop of \<open>watch\<close>: the clock at the
  heartbeat check, the polls of the read, the clock when the message is routed.
\<close>

record iteration =
  check_clock :: int
  polls :: "poll list"
  route_clock :: int

fun watch_loop ::
  "'doc imported \<Rightarrow> iteration list \<Rightarrow> 'doc event_stream
    \<Rightarrow> (error + unit) option \<times> 'doc event_stream" where
  "watch_loop im [] s = (None, s)"
| "watch_loop im (it # its) s =
     (if heartbeat_time (check_clock it) s > hbwait s then (Some (Inr ()), lost_connect s)
      else case read_one_response_or_timeout im (polls it) s of
             (None, s') \<Rightarrow> (None, s')
           | (Some (Inl ex), s') \<Rightarrow>
               (Some (Inr ()), lost_connect (s'\<lparr>isy_log := isy_log s' @ [Read_error ex]\<rparr>))
           | (Some (Inr data'), s') \<Rightarrow>
               if \<not> running s' \<or> \<not> subscribed s' then (Some (Inr ()), s')
               else (case data' of
                       None \<Rightarrow> watch_loop im its s'
                     | Some msg \<Rightarrow>
                         if msg = [] then watch_loop im its s'
                         else (case route_message im (route_clock it) msg s' of
                                 (Inl ex, s'') \<Rightarrow> (Some (Inl ex), s'')
                               | (Inr _, s'') \<Rightarrow> watch_loop im its s'')))"

definition watch ::
  "'doc imported \<Rightarrow> iteration list \<Rightarrow> 'doc event_stream
    \<Rightarrow> (error + unit) option \<times> 'doc event_stream" where
  "watch im its s =
     (if \<not> subscribed s then (Some (Inr ()), s)
      else watch_loop im its (s\<lparr>event_buffer := [], event_content_length := None\<rparr>))"

subsection \<open>The running property\<close>

text \<open>
  The getter asks the thread whether it is alive. (Where the thread object has no method
  \<open>isAlive\<close>, the AttributeError is caught and the getter gives False also for a live
  thread; the properties below hold for either answer.)
\<close>

definition running_getter :: "'doc event_stream \<Rightarrow> bool" where
  "running_getter s = (case thread s of Some alive \<Rightarrow> alive | None \<Rightarrow> False)"

text \<open>
  The setter. Starting the thread is recorded in \<open>thread\<close>; the body of the thread is
  \<open>watch\<close>, run as an operation of its own (\<open>thread_run\<close>), after which the thread is dead.
\<close>

definition running_setter ::
  "'doc imported \<Rightarrow> bool \<Rightarrow> bool \<Rightarrow> bool \<Rightarrow> 'doc event_stream
    \<Rightarrow> (error + unit) \<times> 'doc event_stream" where
  "running_setter im val net_ok io_ok s =
     (if val \<and> \<not> running_getter s then
        (case connect net_ok s of
           (Inl e, s1) \<Rightarrow> (Inl e, s1)
         | (Inr ok, s1) \<Rightarrow>
             if ok then
               (case subscribe im io_ok s1 of
                  (Inl e, s2) \<Rightarrow> (Inl e, s2)
                | (Inr _, s2) \<Rightarrow> (Inr (), s2\<lparr>running := True, thread := Some True\<rparr>))
             else (Inr (), s1))
      else
        (case unsubscribe im io_ok (s\<lparr>running := False\<rparr>) of
           (Inl e, s1) \<Rightarrow> (Inl e, s1)
         | (Inr _, s1) \<Rightarrow> (Inr (), disconnect s1)))"

definition thread_run ::
  "'doc imported \<Rightarrow> iteration list \<Rightarrow> 'doc event_stream
    \<Rightarrow> (error + unit) option \<times> 'doc event_stream" where
  "thread_run im its s =
     (case watch im its s of
        (None, s') \<Rightarrow> (None, s')
      | (Some r, s') \<Rightarrow> (Some r, s'\<lparr>thread := Some False\<rparr>))"

subsection \<open>Operations on the object\<close>

text \<open>
  The operations a caller or the thread performs, each with what the environment answers,
  and the state each leaves (whether it returns or raises).
\<close>

datatype 'doc operation =
    Connect bool
  | Disconnect
  | Subscribe bool
  | Unsubscribe bool
  | Set_running bool bool bool
  | Watch "iteration list"
  | Thread_run "iteration list"
  | Write bool string
  | Update_received 'doc

fun exec :: "'doc imported \<Rightarrow> 'doc operation \<Rightarrow> 'doc event_stream \<Rightarrow> 'doc event_stream" where
  "exec im (Connect net_ok) s = snd (connect net_ok s)"
| "exec im Disconnect s = disconnect s"
| "exec im (Subscribe io_ok) s = snd (subscribe im io_ok s)"
| "exec im (Unsubscribe io_ok) s = snd (unsubscribe im io_ok s)"
| "exec im (Set_running val net_ok io_ok) s = snd (running_setter im val net_ok io_ok s)"
| "exec im (Watch its) s = snd (watch im its s)"
| "exec im (Thread_run its) s = snd (thread_run im its s)"
| "exec im (Write io_ok msg) s = snd (write' io_ok msg s)"
| "exec im (Update_received xmldoc) s = update_received im xmldoc s"

fun exec_all :: "'doc imported \<Rightarrow> 'doc operation list \<Rightarrow> 'doc event_stream \<Rightarrow> 'doc event_stream" where
  "exec_all im [] s = s"
| "exec_all im (oper # opers) s = exec_all im opers (exec im oper s)"

subsection \<open>Notions the properties are stated with\<close>

text \<open>The operations in which the network accepts a connection.\<close>

fun net_accepts :: "'doc operation \<Rightarrow> bool" where
  "net_accepts (Connect net_ok) = net_ok"
| "net_accepts (Set_running val net_ok io_ok) = net_ok"
| "net_accepts _ = False"

text \<open>
  Instances of the imported parts, for evaluating the model on concrete inputs: a stand-in
  for the XML helpers that reads the text after a tag, templates without placeholders.
\<close>

definition example_value :: "string \<Rightarrow> string \<Rightarrow> string option" where
  "example_value xmldoc tag =
     (case py_find (''<'' @ tag @ ''>'') xmldoc of
        None \<Rightarrow> None
      | Some i \<Rightarrow> Some (takeWhile (\<lambda>c. c \<noteq> CHR ''<'') (drop (i + length tag + 2) xmldoc)))"

definition example_attr :: "string \<Rightarrow> string \<Rightarrow> string \<Rightarrow> pyval" where
  "example_attr xmldoc tag attr =
     (case py_find (attr @ ''='') xmldoc of
        None \<Rightarrow> PNone
      | Some i \<Rightarrow> PStr (takeWhile (\<lambda>c. c \<noteq> CHR '' '' \<and> c \<noteq> CHR ''>'')
                          (drop (i + length attr + 1) xmldoc)))"

definition example_imported :: "string imported" where
  "example_imported =
     \<lparr> ATTR_ACTION = ''action'', ATTR_CONTROL = ''control'', ATTR_ID = ''id'',
       ATTR_STREAM_ID = ''sid'', ATTR_VAR = ''var'', PROP_STATUS = ''ST'', TAG_NODE = ''node'',
       SUB_MSG = \<lparr>head = ''SUBSCRIBE '', body = ''<subscribe/>''\<rparr>,
       RESUB_MSG = \<lparr>head = ''SUBSCRIBE '', body = ''<resubscribe/>''\<rparr>,
       UNSUB_MSG = \<lparr>head = ''UNSUBSCRIBE '', body = ''<unsubscribe/>''\<rparr>,
       parseString = (\<lambda>msg. if prefix ''<'' msg then Some msg else None),
       value_from_xml = example_value,
       attr_from_xml = example_attr,
       format = (\<lambda>template kwargs. Some template),
       decode = Some \<rparr>"

definition example_data :: "string \<rightharpoonup> pyval" where
  "example_data = [''addr'' \<mapsto> PStr ''10.0.0.2'', ''port'' \<mapsto> PInt 80]"

text \<open>The order of the three session flags.\<close>

definition session_inv :: "'doc event_stream \<Rightarrow> bool" where
  "session_inv s \<longleftrightarrow> (running s \<longrightarrow> subscribed s) \<and> (subscribed s \<longrightarrow> connected s)"

text \<open>The test of the watch loop, negated: the connection counts as alive.\<close>

definition is_alive :: "int \<Rightarrow> 'doc event_stream \<Rightarrow> bool" where
  "is_alive now s \<longleftrightarrow> \<not> heartbeat_time now s > hbwait s"

text \<open>The lines of a header block that are content-length headers.\<close>

definition is_content_length_header :: "string \<Rightarrow> bool" where
  "is_content_length_header header =
     (case py_split1 (CHR '':'') header of
        [header_name, header_value] \<Rightarrow> py_lower (py_strip header_name) = ''content-length''
      | _ \<Rightarrow> False)"

definition content_length_headers :: "string \<Rightarrow> string list" where
  "content_length_headers headers =
     filter is_content_length_header (py_split HTTP_HEADER_SEPERATOR headers)"

definition example_stream :: "string event_stream" where
  "example_stream = init True example_data"

definition example_heartbeat :: string where
  "example_heartbeat = ''<Event><control>_0</control><action>30</action></Event>''"

definition example_trigger :: string where
  "example_trigger = ''<Event><control>_1</control><var id=1 /><id>3</id></Event>''"

definition example_running :: "string event_stream" where
  "example_running =
     example_stream\<lparr>running := True, writer := Some [], subscribed := True, connected := True\<rparr>"

definition example_frame :: "string \<Rightarrow> string \<Rightarrow> string" where
  "example_frame len body' =
     ''POST reuse HTTP/1.1'' @ HTTP_HEADER_SEPERATOR @ ''Content-Length: '' @ len
       @ HTTP_HEADER_BODY_SEPERATOR @ body'"

definition example_iteration :: "string \<Rightarrow> iteration" where
  "example_iteration received =
     \<lparr>check_clock = 0, polls = [Readable [received] Empty_read], route_clock = 0\<rparr>"

definition example_sid_event :: string where
  "example_sid_event = ''<Event sid=uuid:25 ><control>_0</control><action>30</action></Event>''"

definition example_headers_only :: string where
  "example_headers_only =
     ''POST reuse HTTP/1.1'' @ HTTP_HEADER_SEPERATOR @ ''Host: 10.0.0.2'' @ HTTP_HEADER_BODY_SEPERATOR"

text \<open>
  A frame on the wire: a header block, the separator, a body. The header lines are the
  lines of the block after the first one (the request line); the value of a line is what
  follows its first colon; the declared lengths are the values of the content-length
  lines, read as integers. A frame is well formed when
  \<^item> the separator occurs in the header block followed by the separator first where the
    block ends,
  \<^item> every header line has a colon,
  \<^item> there is a content-length line, the value of every content-length line is an integer,
    and the last of these integers is the length of the body,
  \<^item> the body is not empty.
\<close>

type_synonym frame = "string \<times> string"

definition frame_bytes :: "frame \<Rightarrow> string" where
  "frame_bytes f = fst f @ HTTP_HEADER_BODY_SEPERATOR @ snd f"



definition header_value :: "string \<Rightarrow> string" where
  "header_value header = tl (dropWhile (\<lambda>x. x \<noteq> CHR '':'') header)"




text \<open>
  A poll at which the socket is readable and delivers one chunk, followed by an empty read.
\<close>

definition received :: "string \<Rightarrow> poll" where
  "received new_data = Readable [new_data] Empty_read"

text \<open>
  Successive calls of \<open>_read_one_response_or_timeout\<close> on the polls the socket delivers.
  A call is given the next poll; when it has used the poll up without returning, it goes on
  with the poll after it (see \<open>read_continues\<close> below), and when it returns, the next call
  begins at the poll after it. What the calls return is collected in order (nothing for a
  timeout), and the first raise ends the run.
\<close>

fun read_all ::
  "'doc imported \<Rightarrow> poll list \<Rightarrow> 'doc event_stream \<Rightarrow> (error + string list) \<times> 'doc event_stream"
  where
  "read_all im [] s = (Inr [], s)"
| "read_all im (p # ps) s =
     (case read_one_response_or_timeout im [p] s of
        (None, s') \<Rightarrow> read_all im ps s'
      | (Some (Inl e), s') \<Rightarrow> (Inl e, s')
      | (Some (Inr r), s') \<Rightarrow>
          (case read_all im ps s' of
             (Inl e, s'') \<Rightarrow> (Inl e, s'')
           | (Inr strs, s'') \<Rightarrow>
               (Inr ((case r of None \<Rightarrow> [] | Some str \<Rightarrow> [str]) @ strs), s'')))"






section \<open>Properties\<close>

subsection \<open>What reading the socket leaves alone\<close>

lemma parse_headers_frame:
  "\<exists>b c. snd (parse_headers p s) = s\<lparr>event_buffer := b, event_content_length := c\<rparr>"
  by (auto simp: parse_headers_def Let_def split: prod.splits option.splits)

lemma take_body_frame:
  "\<exists>b c. snd (take_body s) = s\<lparr>event_buffer := b, event_content_length := c\<rparr>"
proof (cases "event_content_length s")
  case None
  then have "snd (take_body s) = s\<lparr>event_buffer := event_buffer s, event_content_length := event_content_length s\<rparr>"
    by (simp add: take_body_def)
  then show ?thesis by blast
next
  case (Some n)
  show ?thesis
  proof (cases "int (length (event_buffer s)) < n")
    case True
    with Some have "snd (take_body s) = s\<lparr>event_buffer := event_buffer s, event_content_length := event_content_length s\<rparr>"
      by (simp add: take_body_def)
    then show ?thesis by blast
  next
    case False
    with Some show ?thesis by (auto simp: take_body_def)
  qed
qed

lemma assemble_frame:
  "\<exists>b c. snd (assemble s) = s\<lparr>event_buffer := b, event_content_length := c\<rparr>"
proof -
  have id: "s = s\<lparr>event_buffer := event_buffer s, event_content_length := event_content_length s\<rparr>"
    by simp
  show ?thesis
  proof (cases "py_not (event_content_length s)")
    case False
    then show ?thesis using take_body_frame [of s] by (simp add: assemble_def)
  next
    case True
    show ?thesis
    proof (cases "py_find HTTP_HEADER_BODY_SEPERATOR (event_buffer s)")
      case None
      with True have "snd (assemble s) = s" by (simp add: assemble_def)
      with id show ?thesis by metis
    next
      case (Some p)
      obtain r s1 where ph: "parse_headers p s = (r, s1)" by (cases "parse_headers p s")
      obtain b c where s1: "s1 = s\<lparr>event_buffer := b, event_content_length := c\<rparr>"
        using parse_headers_frame [of p s] ph by auto
      show ?thesis
      proof (cases r)
        case (Inl e)
        with True Some ph s1 show ?thesis by (auto simp: assemble_def)
      next
        case (Inr u)
        obtain b' c' where "snd (take_body s1) = s1\<lparr>event_buffer := b', event_content_length := c'\<rparr>"
          using take_body_frame [of s1] by blast
        with True Some ph s1 Inr show ?thesis by (auto simp: assemble_def)
      qed
    qed
  qed
qed


lemma read_one_frame:
  "\<exists>b c. snd (read_one_response_or_timeout im ps s)
           = s\<lparr>event_buffer := b, event_content_length := c\<rparr>"
proof (induction im ps s rule: read_one_response_or_timeout.induct)
  case (1 im s)
  have "s = s\<lparr>event_buffer := event_buffer s, event_content_length := event_content_length s\<rparr>"
    by simp
  then show ?case by (metis read_one_response_or_timeout.simps(1) snd_conv)
next
  case (2 im polls s)
  have "s = s\<lparr>event_buffer := event_buffer s, event_content_length := event_content_length s\<rparr>"
    by simp
  then show ?case by (metis read_one_response_or_timeout.simps(2) snd_conv)
next
  case (3 im chunks e polls s)
  obtain buf e' where dr: "drain chunks e (event_buffer s) = (buf, e')"
    by (cases "drain chunks e (event_buffer s)")
  let ?s1 = "s\<lparr>event_buffer := buf\<rparr>"
  show ?case
  proof (cases e')
    case Want_read
    from "3.IH"(2) [OF dr [symmetric] Want_read]
    obtain b c where "snd (read_one_response_or_timeout im polls ?s1)
        = ?s1\<lparr>event_buffer := b, event_content_length := c\<rparr>" by blast
    with dr Want_read show ?thesis by auto
  next
    case Recv_error
    have "?s1 = s\<lparr>event_buffer := buf, event_content_length := event_content_length s\<rparr>" by simp
    moreover from dr Recv_error have "snd (read_one_response_or_timeout im (Readable chunks e # polls) s) = ?s1"
      by simp
    ultimately show ?thesis by metis
  next
    case Empty_read
    obtain r s2 where as: "assemble ?s1 = (r, s2)" by (cases "assemble ?s1")
    obtain b c where s2: "s2 = ?s1\<lparr>event_buffer := b, event_content_length := c\<rparr>"
      using assemble_frame [of ?s1] as by auto
    then have s2': "s2 = s\<lparr>event_buffer := b, event_content_length := c\<rparr>" by simp
    show ?thesis
    proof (cases r)
      case (Inl err)
      with dr Empty_read as s2' show ?thesis by auto
    next
      case (Inr ob)
      show ?thesis
      proof (cases ob)
        case None
        from "3.IH"(1) [OF dr [symmetric] Empty_read as [symmetric] Inr None]
        obtain b' c' where "snd (read_one_response_or_timeout im polls s2)
            = s2\<lparr>event_buffer := b', event_content_length := c'\<rparr>" by blast
        with dr Empty_read as Inr None s2' show ?thesis by auto
      next
        case (Some body')
        with dr Empty_read as Inr s2' show ?thesis
          by (cases "decode im body'") auto
      qed
    qed
  qed
qed

lemma read_one_fields [simp]:
  "running (snd (read_one_response_or_timeout im ps s)) = running s"
  "writer (snd (read_one_response_or_timeout im ps s)) = writer s"
  "thread (snd (read_one_response_or_timeout im ps s)) = thread s"
  "subscribed (snd (read_one_response_or_timeout im ps s)) = subscribed s"
  "connected (snd (read_one_response_or_timeout im ps s)) = connected s"
  "lasthb (snd (read_one_response_or_timeout im ps s)) = lasthb s"
  "hbwait (snd (read_one_response_or_timeout im ps s)) = hbwait s"
  "on_lost_function (snd (read_one_response_or_timeout im ps s)) = on_lost_function s"
  "data (snd (read_one_response_or_timeout im ps s)) = data s"
  "calls (snd (read_one_response_or_timeout im ps s)) = calls s"
  "isy_log (snd (read_one_response_or_timeout im ps s)) = isy_log s"
  using read_one_frame [of im ps s] by auto

lemma route_message_fields [simp]:
  "running (snd (route_message im now msg s)) = running s"
  "writer (snd (route_message im now msg s)) = writer s"
  "thread (snd (route_message im now msg s)) = thread s"
  "subscribed (snd (route_message im now msg s)) = subscribed s"
  "connected (snd (route_message im now msg s)) = connected s"
  "on_lost_function (snd (route_message im now msg s)) = on_lost_function s"
  "event_buffer (snd (route_message im now msg s)) = event_buffer s"
  "event_content_length (snd (route_message im now msg s)) = event_content_length s"
  by (auto simp: route_message_def update_received_def dispatch_def Let_def
           split: option.splits)

lemma route_message_data:
  "data s k \<noteq> None \<Longrightarrow> data (snd (route_message im now msg s)) k \<noteq> None"
  by (auto simp: route_message_def update_received_def dispatch_def Let_def
           split: option.splits)

lemma lost_connect_fields [simp]:
  "writer (lost_connect s) = writer s"
  "thread (lost_connect s) = thread s"
  "data (lost_connect s) = data s"
  "on_lost_function (lost_connect s) = on_lost_function s"
  "connected (lost_connect s) = False"
  by (auto simp: lost_connect_def disconnect_def Let_def)

lemma lost_connect_inv: "session_inv s \<Longrightarrow> session_inv (lost_connect s)"
  by (auto simp: lost_connect_def disconnect_def Let_def session_inv_def)

lemma watch_loop_preserves:
  assumes "P s"
    and rd: "\<And>s ps. P s \<Longrightarrow> P (snd (read_one_response_or_timeout im ps s))"
    and rt: "\<And>s now msg. P s \<Longrightarrow> P (snd (route_message im now msg s))"
    and lc: "\<And>s. P s \<Longrightarrow> P (lost_connect s)"
    and lg: "\<And>s e. P s \<Longrightarrow> P (s\<lparr>isy_log := isy_log s @ [e]\<rparr>)"
  shows "P (snd (watch_loop im its s))"
  using \<open>P s\<close>
proof (induction its arbitrary: s)
  case Nil
  then show ?case by simp
next
  case (Cons it its)
  show ?case
  proof (cases "heartbeat_time (check_clock it) s > hbwait s")
    case True
    then show ?thesis using lc [OF Cons.prems] by simp
  next
    case alive: False
    obtain r s' where r: "read_one_response_or_timeout im (polls it) s = (r, s')"
      by (cases "read_one_response_or_timeout im (polls it) s")
    have Ps': "P s'" using rd [OF Cons.prems, of "polls it"] r by simp
    show ?thesis
    proof (cases r)
      case None
      with alive r Ps' show ?thesis by simp
    next
      case (Some res)
      show ?thesis
      proof (cases res)
        case (Inl ex)
        with alive r Some lc [OF lg [OF Ps']] show ?thesis by simp
      next
        case (Inr d)
        show ?thesis
        proof (cases "\<not> running s' \<or> \<not> subscribed s'")
          case True
          with alive r Some Inr Ps' show ?thesis by auto
        next
          case go: False
          show ?thesis
          proof (cases d)
            case None
            with alive r Some Inr go Cons.IH [OF Ps'] show ?thesis by simp
          next
            case (Some msg)
            show ?thesis
            proof (cases "msg = []")
              case True
              with alive r \<open>r = Some res\<close> Inr go Some Cons.IH [OF Ps'] show ?thesis by simp
            next
              case False
              obtain rr s'' where rr: "route_message im (route_clock it) msg s' = (rr, s'')"
                by (cases "route_message im (route_clock it) msg s'")
              have Ps'': "P s''" using rt [OF Ps', of "route_clock it" msg] rr by simp
              show ?thesis
              proof (cases rr)
                case (Inl ex)
                with alive r \<open>r = Some res\<close> Inr go Some False rr Ps'' show ?thesis by simp
              next
                case (Inr u)
                with alive r \<open>r = Some res\<close> \<open>res = Inr d\<close> go Some False rr Cons.IH [OF Ps'']
                show ?thesis by simp
              qed
            qed
          qed
        qed
      qed
    qed
  qed
qed

lemma watch_preserves:
  assumes "P s"
    and "\<And>s b c. P s \<Longrightarrow> P (s\<lparr>event_buffer := b, event_content_length := c\<rparr>)"
    and "\<And>s now msg. P s \<Longrightarrow> P (snd (route_message im now msg s))"
    and "\<And>s. P s \<Longrightarrow> P (lost_connect s)"
    and "\<And>s e. P s \<Longrightarrow> P (s\<lparr>isy_log := isy_log s @ [e]\<rparr>)"
  shows "P (snd (watch im its s))"
proof (cases "subscribed s")
  case False
  with assms(1) show ?thesis by (simp add: watch_def)
next
  case True
  have rd: "P (snd (read_one_response_or_timeout im ps s))" if "P s" for s ps
    using read_one_frame [of im ps s] assms(2) [OF that] by auto
  have "P (snd (watch_loop im its (s\<lparr>event_buffer := [], event_content_length := None\<rparr>)))"
    by (rule watch_loop_preserves [where P = P, OF assms(2) [OF assms(1)] rd assms(3,4,5)])
  with True show ?thesis by (simp add: watch_def)
qed


lemma connect_inv: "session_inv s \<Longrightarrow> session_inv (snd (connect net_ok s))"
  by (auto simp: connect_def session_inv_def Let_def)

lemma disconnect_inv: "session_inv s \<Longrightarrow> session_inv (disconnect s)"
  by (auto simp: disconnect_def session_inv_def)

lemma write_fields [simp]:
  "running (snd (write' io_ok msg s)) = running s"
  "subscribed (snd (write' io_ok msg s)) = subscribed s"
  "connected (snd (write' io_ok msg s)) = connected s"
  "thread (snd (write' io_ok msg s)) = thread s"
  "data (snd (write' io_ok msg s)) = data s"
  by (auto simp: write'_def split: option.splits)

lemma write_inv: "session_inv (snd (write' io_ok msg s)) = session_inv s"
  by (simp add: session_inv_def)

lemma subscribe_inv: "session_inv s \<Longrightarrow> session_inv (snd (subscribe im io_ok s))"
proof (cases "\<not> subscribed s \<and> connected s")
  case False
  assume "session_inv s"
  with False show ?thesis by (auto simp: subscribe_def)
next
  case True
  assume inv: "session_inv s"
  let ?tmpl = "if data s (ATTR_STREAM_ID im) = None then SUB_MSG im else RESUB_MSG im"
  show ?thesis
  proof (cases "create_message im ?tmpl s")
    case (Inl e)
    with True inv show ?thesis by (simp add: subscribe_def)
  next
    case (Inr msg)
    obtain r s' where w: "write' io_ok msg s = (r, s')" by (cases "write' io_ok msg s")
    then have s': "s' = snd (write' io_ok msg s)" by simp
    have "session_inv s'" "connected s'" using inv True by (simp_all add: s' write_inv)
    with True Inr w show ?thesis
      by (cases r) (auto simp: subscribe_def session_inv_def)
  qed
qed

lemma unsubscribe_inv: "session_inv s \<Longrightarrow> session_inv (snd (unsubscribe im io_ok s))"
proof (cases "subscribed s \<and> connected s")
  case False
  assume "session_inv s"
  with False show ?thesis by (auto simp: unsubscribe_def)
next
  case True
  assume inv: "session_inv s"
  show ?thesis
  proof (cases "create_message im (UNSUB_MSG im) s")
    case (Inl e)
    with True inv show ?thesis by (simp add: unsubscribe_def)
  next
    case (Inr msg)
    obtain r s' where w: "write' io_ok msg s = (r, s')" by (cases "write' io_ok msg s")
    then have s': "s' = snd (write' io_ok msg s)" by simp
    have "session_inv s'" "connected s'" using inv True by (simp_all add: s' write_inv)
    with True Inr w show ?thesis
      by (cases r) (auto simp: unsubscribe_def session_inv_def disconnect_def)
  qed
qed

lemma connect_True: "connect net_ok s = (Inr True, s') \<Longrightarrow> connected s'"
  by (auto simp: connect_def Let_def split: if_splits)

lemma subscribe_Inr:
  "subscribe im io_ok s = (Inr u, s') \<Longrightarrow> connected s \<Longrightarrow> subscribed s' \<and> connected s'"
proof -
  assume a: "subscribe im io_ok s = (Inr u, s')" and c: "connected s"
  show ?thesis
  proof (cases "subscribed s")
    case True
    with a c show ?thesis by (simp add: subscribe_def)
  next
    case False
    let ?tmpl = "if data s (ATTR_STREAM_ID im) = None then SUB_MSG im else RESUB_MSG im"
    show ?thesis
    proof (cases "create_message im ?tmpl s")
      case (Inl e)
      with False c a show ?thesis by (simp add: subscribe_def)
    next
      case (Inr msg)
      obtain r s1 where w: "write' io_ok msg s = (r, s1)" by (cases "write' io_ok msg s")
      then have "connected s1" using c write_fields(3) [of io_ok msg s] by simp
      with False c a Inr w show ?thesis by (cases r) (auto simp: subscribe_def)
    qed
  qed
qed

lemma running_setter_inv:
  "session_inv s \<Longrightarrow> session_inv (snd (running_setter im val net_ok io_ok s))"
proof (cases "val \<and> \<not> running_getter s")
  case True
  assume inv: "session_inv s"
  obtain r s1 where c: "connect net_ok s = (r, s1)" by (cases "connect net_ok s")
  have inv1: "session_inv s1" using connect_inv [OF inv, of net_ok] c by simp
  show ?thesis
  proof (cases r)
    case (Inl e)
    with True c inv1 show ?thesis by (simp add: running_setter_def)
  next
    case (Inr ok)
    show ?thesis
    proof (cases ok)
      case False
      with True c Inr inv1 show ?thesis by (simp add: running_setter_def)
    next
      case ok: True
      have con1: "connected s1" using connect_True [of net_ok s s1] c Inr ok by simp
      obtain r2 s2 where sb: "subscribe im io_ok s1 = (r2, s2)" by (cases "subscribe im io_ok s1")
      have inv2: "session_inv s2" using subscribe_inv [OF inv1, of im io_ok] sb by simp
      show ?thesis
      proof (cases r2)
        case (Inl e)
        with True c Inr ok sb inv2 show ?thesis by (simp add: running_setter_def)
      next
        case r2: (Inr u)
        have "subscribed s2 \<and> connected s2"
          using subscribe_Inr [of im io_ok s1 u s2] sb con1 r2 by simp
        with True c Inr ok sb r2 show ?thesis by (simp add: running_setter_def session_inv_def)
      qed
    qed
  qed
next
  case False
  assume inv: "session_inv s"
  then have inv0: "session_inv (s\<lparr>running := False\<rparr>)" by (simp add: session_inv_def)
  obtain r s1 where u: "unsubscribe im io_ok (s\<lparr>running := False\<rparr>) = (r, s1)"
    by (cases "unsubscribe im io_ok (s\<lparr>running := False\<rparr>)")
  have "session_inv s1" using unsubscribe_inv [OF inv0, of im io_ok] u by simp
  with False u show ?thesis by (cases r) (auto simp: running_setter_def disconnect_inv)
qed

lemma route_message_inv: "session_inv (snd (route_message im now msg s)) = session_inv s"
  by (simp add: session_inv_def)

lemma watch_inv: "session_inv s \<Longrightarrow> session_inv (snd (watch im its s))"
  by (rule watch_preserves [where P = session_inv])
     (simp_all add: route_message_inv lost_connect_inv, simp_all add: session_inv_def)

lemma thread_run_inv: "session_inv s \<Longrightarrow> session_inv (snd (thread_run im its s))"
  using watch_inv [of s im its]
  by (auto simp: thread_run_def session_inv_def split: prod.splits option.splits)

lemma exec_inv: "session_inv s \<Longrightarrow> session_inv (exec im oper s)"
  by (cases oper)
     (simp_all add: connect_inv disconnect_inv subscribe_inv unsubscribe_inv running_setter_inv
        watch_inv thread_run_inv write_inv, simp add: update_received_def session_inv_def)

lemma exec_all_inv: "session_inv s \<Longrightarrow> session_inv (exec_all im opers s)"
  by (induction opers arbitrary: s) (simp_all add: exec_inv)

lemma init_inv: "session_inv (init f d)"
  by (simp add: session_inv_def init_def)


lemma closed_preserved:
  assumes "writer s = None \<and> \<not> connected s" and "\<not> net_accepts oper"
  shows "writer (exec im oper s) = None \<and> \<not> connected (exec im oper s)"
proof (cases oper)
  case (Connect net_ok)
  with assms show ?thesis by (auto simp: connect_def Let_def)
next
  case Disconnect
  with assms show ?thesis by (simp add: disconnect_def)
next
  case (Subscribe io_ok)
  with assms show ?thesis by (simp add: subscribe_def)
next
  case (Unsubscribe io_ok)
  with assms show ?thesis by (simp add: unsubscribe_def)
next
  case (Set_running val net_ok io_ok)
  with assms show ?thesis
    by (auto simp: running_setter_def connect_def unsubscribe_def disconnect_def Let_def)
next
  case (Watch its)
  have "writer (snd (watch im its s)) = None \<and> \<not> connected (snd (watch im its s))"
    by (rule watch_preserves [where P = "\<lambda>s. writer s = None \<and> \<not> connected s"])
       (simp_all add: assms)
  with Watch show ?thesis by simp
next
  case (Thread_run its)
  have "writer (snd (watch im its s)) = None \<and> \<not> connected (snd (watch im its s))"
    by (rule watch_preserves [where P = "\<lambda>s. writer s = None \<and> \<not> connected s"])
       (simp_all add: assms)
  with Thread_run show ?thesis
    by (auto simp: thread_run_def split: prod.splits option.splits)
next
  case (Write io_ok msg)
  with assms show ?thesis by (simp add: write'_def)
next
  case (Update_received xmldoc)
  with assms show ?thesis by (simp add: update_received_def)
qed

lemma closed_preserved_all:
  "writer s = None \<and> \<not> connected s \<Longrightarrow> \<forall>oper \<in> set opers. \<not> net_accepts oper
    \<Longrightarrow> writer (exec_all im opers s) = None \<and> \<not> connected (exec_all im opers s)"
proof (induction opers arbitrary: s)
  case Nil
  then show ?case by simp
next
  case (Cons oper opers)
  from Cons.prems have "writer (exec im oper s) = None \<and> \<not> connected (exec im oper s)"
    by (intro closed_preserved) simp_all
  with Cons show ?case by simp
qed

lemma init_closed_all:
  "\<forall>oper \<in> set opers. \<not> net_accepts oper
    \<Longrightarrow> writer (exec_all im opers (init on_lost d)) = None"
  using closed_preserved_all [of "init on_lost d" opers im] by (simp add: init_def)

text \<open>
  C7. The running flag implies the subscribed flag and the subscribed flag implies the
  connected flag: this holds of a new object and every operation (connect, disconnect,
  subscribe, unsubscribe, the running setter, the watch loop, write, the capture of a
  stream id) keeps it; with it, after disconnect both the subscribed and the running flag
  are false.
\<close>

theorem session_invariant:
  "session_inv (init on_lost d) \<and>
   (session_inv s \<longrightarrow>
      session_inv (exec im oper s) \<and> \<not> subscribed (disconnect s) \<and> \<not> running (disconnect s))"
proof -
  have "\<not> subscribed (disconnect s) \<and> \<not> running (disconnect s)" if "session_inv s"
    using that by (cases "connected s") (auto simp: session_inv_def disconnect_def)
  then show ?thesis by (simp add: init_inv exec_inv)
qed

theorem session_invariant_witness:
  "session_inv (init True example_data :: string event_stream) \<and>
   session_inv (exec example_imported (Set_running True True True) (init True example_data)) \<and>
   running (exec example_imported (Set_running True True True) (init True example_data)) \<and>
   subscribed (exec example_imported (Set_running True True True) (init True example_data)) \<and>
   connected (exec example_imported (Set_running True True True) (init True example_data))"
  using session_invariant [of True example_data "init True example_data" example_imported
      "Set_running True True True"]
  by (simp add: init_def example_data_def example_imported_def running_setter_def
      running_getter_def connect_def subscribe_def create_message_def write'_def session_inv_def)

text \<open>
  C10. On an object that has no writer, \<open>write\<close> raises NotImplementedError and changes
  nothing, so nothing is sent; and an object has no writer as long as the network has not
  accepted a connection in any operation performed on it since it was made.
\<close>

theorem write_without_connection:
  "(writer s = None \<longrightarrow> write' io_ok msg s = (Inl NotImplementedError, s)) \<and>
   ((\<forall>oper \<in> set opers. \<not> net_accepts oper) \<longrightarrow>
      writer (exec_all im opers (init on_lost d)) = None)"
  by (simp add: init_closed_all write'_def)

theorem write_without_connection_witness:
  "writer (exec_all example_imported [Connect False, Subscribe True, Set_running True False True]
             (init True example_data)) = None \<and>
   write' True ''x''
     (exec_all example_imported [Connect False, Subscribe True, Set_running True False True]
        (init True example_data))
   = (Inl NotImplementedError,
      exec_all example_imported [Connect False, Subscribe True, Set_running True False True]
        (init True example_data))"
  using write_without_connection [of
      "exec_all example_imported [Connect False, Subscribe True, Set_running True False True]
        (init True example_data)" True "''x''"
      "[Connect False, Subscribe True, Set_running True False True]" example_imported True
      example_data]
  by simp

lemma watch_loop_dead:
  "\<not> is_alive (check_clock it) s \<Longrightarrow> watch_loop im (it # its) s = (Some (Inr ()), lost_connect s)"
  by (simp add: is_alive_def)

subsection \<open>Frames on concrete inputs\<close>



text \<open>
  C3. A frame whose headers declare a content length of 0 should give an empty body. The
  code raises ValueError on it: the test for a missing content length is the truth value
  of the number, and 0 is false.
\<close>

theorem content_length_zero_raises:
  "fst (feed (''POST reuse HTTP/1.1'' @ HTTP_HEADER_SEPERATOR @ ''Content-Length: 0''
               @ HTTP_HEADER_BODY_SEPERATOR) example_stream) = Inl ValueError"
  by code_simp

subsection \<open>Heartbeat\<close>

text \<open>
  With a heartbeat at time 0 and a wait interval of 30 seconds, the connection is alive at
  30.5 seconds, although more than the wait interval has elapsed: \<open>heartbeat_time\<close>
  counts whole seconds.
\<close>

theorem heartbeat_liveness_counterexample:
  "is_alive 30500000 (example_stream\<lparr>lasthb := Some 0, hbwait := 30\<rparr>) \<and>
   \<not> ((30500000 :: int) - 0 \<le> 30 * 1000000)"
  by (simp add: is_alive_def heartbeat_time_def timedelta_seconds_def)

lemma whole_seconds_bounds:
  fixes d :: int
  assumes "0 \<le> d" and "d < 86400000000"
  shows "0 \<le> d div 1000000" and "d div 1000000 < 86400"
proof -
  have eq: "d = 1000000 * (d div 1000000) + d mod 1000000" by simp
  have m: "0 \<le> d mod 1000000" "d mod 1000000 < 1000000" by simp_all
  show "0 \<le> d div 1000000" using assms(1) by (simp add: pos_imp_zdiv_nonneg_iff)
  show "d div 1000000 < 86400" using eq m assms(2) by linarith
qed

lemma py_int_30: "py_int ''30'' = Some 30"
  by (simp add: py_int_def py_strip_def py_isspace_def py_isdigit_def)

text \<open>
  C5, amended. After a heartbeat message with action 30 is routed at time \<open>t0\<close>, the
  connection is alive at \<open>t0\<close> + 29 s and dead at \<open>t0\<close> + 31 s. From the last heartbeat
  up to one day after it, the connection is alive iff the whole seconds elapsed are at most
  the wait interval. Before any heartbeat (no time recorded, the wait interval not
  negative) it is alive.
\<close>

theorem heartbeat_liveness:
  "(parseString im msg = Some xmldoc \<and> value_from_xml im xmldoc (ATTR_CONTROL im) = Some ''_0''
      \<and> value_from_xml im xmldoc (ATTR_ACTION im) = Some ''30'' \<longrightarrow>
      is_alive (t0 + 29000000) (snd (route_message im t0 msg s)) \<and>
      \<not> is_alive (t0 + 31000000) (snd (route_message im t0 msg s))) \<and>
   (lasthb s = Some t0 \<and> 0 \<le> now - t0 \<and> now - t0 < 86400000000 \<longrightarrow>
      (is_alive now s \<longleftrightarrow> (now - t0) div 1000000 \<le> hbwait s)) \<and>
   (lasthb s = None \<and> 0 \<le> hbwait s \<longrightarrow> is_alive now s)"
proof (intro conjI impI)
  assume a: "parseString im msg = Some xmldoc \<and> value_from_xml im xmldoc (ATTR_CONTROL im) = Some ''_0''
      \<and> value_from_xml im xmldoc (ATTR_ACTION im) = Some ''30''"
  then have l: "lasthb (snd (route_message im t0 msg s)) = Some t0"
    and h: "hbwait (snd (route_message im t0 msg s)) = 30"
    by (simp_all add: route_message_def Let_def py_int_30)
  show "is_alive (t0 + 29000000) (snd (route_message im t0 msg s))"
    by (simp add: is_alive_def heartbeat_time_def timedelta_seconds_def l h)
  show "\<not> is_alive (t0 + 31000000) (snd (route_message im t0 msg s))"
    by (simp add: is_alive_def heartbeat_time_def timedelta_seconds_def l h)
next
  assume a: "lasthb s = Some t0 \<and> 0 \<le> now - t0 \<and> now - t0 < 86400000000"
  then have "0 \<le> (now - t0) div 1000000" "(now - t0) div 1000000 < 86400"
    using whole_seconds_bounds [of "now - t0"] by simp_all
  then have "((now - t0) div 1000000) mod 86400 = (now - t0) div 1000000" by simp
  with a show "is_alive now s \<longleftrightarrow> (now - t0) div 1000000 \<le> hbwait s"
    by (auto simp: is_alive_def heartbeat_time_def timedelta_seconds_def)
next
  assume "lasthb s = None \<and> 0 \<le> hbwait s"
  then show "is_alive now s" by (simp add: is_alive_def heartbeat_time_def)
qed


theorem heartbeat_liveness_witness:
  "is_alive 29000000 (snd (route_message example_imported 0 example_heartbeat example_stream)) \<and>
   \<not> is_alive 31000000 (snd (route_message example_imported 0 example_heartbeat example_stream)) \<and>
   is_alive 30999999 (example_stream\<lparr>lasthb := Some 0, hbwait := 30\<rparr>) \<and>
   \<not> is_alive 31000000 (example_stream\<lparr>lasthb := Some 0, hbwait := 30\<rparr>) \<and>
   is_alive 12345 example_stream"
proof -
  have h: "parseString example_imported example_heartbeat = Some example_heartbeat \<and>
      value_from_xml example_imported example_heartbeat (ATTR_CONTROL example_imported) = Some ''_0'' \<and>
      value_from_xml example_imported example_heartbeat (ATTR_ACTION example_imported) = Some ''30''"
    by code_simp
  have n: "lasthb example_stream = None \<and> 0 \<le> hbwait example_stream"
    by (simp add: example_stream_def init_def)
  show ?thesis
    using h n
      heartbeat_liveness [where im = example_imported and msg = example_heartbeat
        and xmldoc = example_heartbeat and ?t0.0 = 0 and now = 30999999
        and s = "example_stream\<lparr>lasthb := Some 0, hbwait := 30\<rparr>"]
      heartbeat_liveness [where im = example_imported and msg = example_heartbeat
        and xmldoc = example_heartbeat and ?t0.0 = 0 and now = 31000000
        and s = "example_stream\<lparr>lasthb := Some 0, hbwait := 30\<rparr>"]
      heartbeat_liveness [where im = example_imported and msg = example_heartbeat
        and xmldoc = example_heartbeat and ?t0.0 = 0 and now = 12345 and s = example_stream]
    by simp
qed

subsection \<open>Routing\<close>

text \<open>
  C6. A message with control code \<open>_1\<close> (the status code being another one) is routed by
  what its raw text contains, in this order: the variable tag, then the message goes to the
  variable collaborator and to no other; else the bare id tag, then to the program
  collaborator; else the node tag together with a bracket, then to nobody; else a refresh
  of the program list is requested.
\<close>

theorem trigger_routing:
  assumes "parseString im msg = Some xmldoc"
    and "value_from_xml im xmldoc (ATTR_CONTROL im) = Some ''_1''"
    and "PROP_STATUS im \<noteq> ''_1''"
  shows "fst (route_message im now msg s) = Inr () \<and>
         calls (snd (route_message im now msg s)) = calls s @
           (if sublist (''<'' @ ATTR_VAR im) msg then [Variables_update_received xmldoc]
            else if sublist (''<'' @ ATTR_ID im @ ''>'') msg then [Programs_update_received xmldoc]
            else if sublist (''<'' @ TAG_NODE im @ ''>'') msg \<and> sublist ''['' msg then []
            else [Programs_update])"
  using assms by (simp add: route_message_def update_received_def dispatch_def Let_def)

theorem trigger_routing_witness:
  "fst (route_message example_imported 0 example_trigger example_stream) = Inr () \<and>
   calls (snd (route_message example_imported 0 example_trigger example_stream))
     = [Variables_update_received example_trigger]"
proof -
  have h: "parseString example_imported example_trigger = Some example_trigger"
    "value_from_xml example_imported example_trigger (ATTR_CONTROL example_imported) = Some ''_1''"
    "PROP_STATUS example_imported \<noteq> ''_1''"
    "sublist (''<'' @ ATTR_VAR example_imported) example_trigger"
    "calls example_stream = []"
    by code_simp+
  show ?thesis
    using trigger_routing [OF h(1,2,3), of 0 example_stream] h(4,5) by simp
qed

text \<open>
  C8. A message that is not well-formed XML is reported in the log and dropped:
  \<open>_route_message\<close> returns without raising, and nothing but the log changes (no call of
  a collaborator, no change of the session flags, the buffer, the heartbeat or the stream
  id). The watch loop, having read such a message, goes on with its next pass.
\<close>

theorem malformed_xml_dropped:
  assumes "parseString im msg = None"
  shows "route_message im now msg s = (Inr (), s\<lparr>isy_log := isy_log s @ [Malformed_XML msg]\<rparr>) \<and>
         (is_alive (check_clock it) s \<and>
          fst (read_one_response_or_timeout im (polls it) s) = Some (Inr (Some msg)) \<and>
          running s \<and> subscribed s \<and> msg \<noteq> [] \<longrightarrow>
          watch_loop im (it # its) s =
          watch_loop im its
            ((snd (read_one_response_or_timeout im (polls it) s))
               \<lparr>isy_log := isy_log s @ [Malformed_XML msg]\<rparr>))"
proof -
  have r: "route_message im now msg s = (Inr (), s\<lparr>isy_log := isy_log s @ [Malformed_XML msg]\<rparr>)"
    for now and s :: "'a event_stream"
    using assms by (simp add: route_message_def)
  have "watch_loop im (it # its) s =
          watch_loop im its
            ((snd (read_one_response_or_timeout im (polls it) s))
               \<lparr>isy_log := isy_log s @ [Malformed_XML msg]\<rparr>)"
    if a: "is_alive (check_clock it) s"
      and b: "fst (read_one_response_or_timeout im (polls it) s) = Some (Inr (Some msg))"
      and c: "running s" "subscribed s" "msg \<noteq> []"
  proof -
    obtain s' where rd: "read_one_response_or_timeout im (polls it) s = (Some (Inr (Some msg)), s')"
      using b by (cases "read_one_response_or_timeout im (polls it) s") simp
    then have s': "s' = snd (read_one_response_or_timeout im (polls it) s)" by simp
    have f: "running s'" "subscribed s'" "isy_log s' = isy_log s" using c by (simp_all add: s')
    show ?thesis using a rd f c(3) r [of "route_clock it" s']
      by (simp add: is_alive_def)
  qed
  with r show ?thesis by blast
qed


theorem malformed_xml_dropped_witness:
  "fst (watch_loop example_imported [example_iteration (example_frame ''7'' ''garbage'')]
          example_running) = None \<and>
   isy_log (snd (watch_loop example_imported [example_iteration (example_frame ''7'' ''garbage'')]
          example_running)) = [Malformed_XML ''garbage''] \<and>
   calls (snd (watch_loop example_imported [example_iteration (example_frame ''7'' ''garbage'')]
          example_running)) = []"
proof -
  let ?it = "example_iteration (example_frame ''7'' ''garbage'')"
  have h: "parseString example_imported ''garbage'' = None"
    "is_alive (check_clock ?it) example_running"
    "fst (read_one_response_or_timeout example_imported (polls ?it) example_running)
       = Some (Inr (Some ''garbage''))"
    "running example_running" "subscribed example_running"
    "isy_log example_running = []" "calls example_running = []"
    by code_simp+
  show ?thesis
    using malformed_xml_dropped [OF h(1), where it = ?it and s = example_running and its = "[]"]
      h(2-7) by simp
qed

subsection \<open>Subscription\<close>

lemma connect_data [simp]: "data (snd (connect net_ok s)) = data s"
  by (simp add: connect_def Let_def)

lemma disconnect_data [simp]: "data (disconnect s) = data s"
  by (simp add: disconnect_def)

lemma subscribe_data [simp]: "data (snd (subscribe im io_ok s)) = data s"
proof (cases "\<not> subscribed s \<and> connected s")
  case False
  then show ?thesis by (auto simp: subscribe_def)
next
  case True
  let ?tmpl = "if data s (ATTR_STREAM_ID im) = None then SUB_MSG im else RESUB_MSG im"
  show ?thesis
  proof (cases "create_message im ?tmpl s")
    case (Inl e)
    with True show ?thesis by (simp add: subscribe_def)
  next
    case (Inr msg)
    obtain r s' where w: "write' io_ok msg s = (r, s')" by (cases "write' io_ok msg s")
    then have "data s' = data s" using write_fields(5) [of io_ok msg s] by simp
    with True Inr w show ?thesis by (cases r) (auto simp: subscribe_def)
  qed
qed

lemma unsubscribe_data [simp]: "data (snd (unsubscribe im io_ok s)) = data s"
proof (cases "subscribed s \<and> connected s")
  case False
  then show ?thesis by (auto simp: unsubscribe_def)
next
  case True
  show ?thesis
  proof (cases "create_message im (UNSUB_MSG im) s")
    case (Inl e)
    with True show ?thesis by (simp add: unsubscribe_def)
  next
    case (Inr msg)
    obtain r s' where w: "write' io_ok msg s = (r, s')" by (cases "write' io_ok msg s")
    then have "data s' = data s" using write_fields(5) [of io_ok msg s] by simp
    with True Inr w show ?thesis by (cases r) (auto simp: unsubscribe_def)
  qed
qed

lemma running_setter_data [simp]: "data (snd (running_setter im val net_ok io_ok s)) = data s"
proof (cases "val \<and> \<not> running_getter s")
  case True
  obtain r s1 where c: "connect net_ok s = (r, s1)" by (cases "connect net_ok s")
  then have d1: "data s1 = data s" using connect_data [of net_ok s] by simp
  show ?thesis
  proof (cases r)
    case (Inl e)
    with True c d1 show ?thesis by (simp add: running_setter_def)
  next
    case (Inr ok)
    obtain r2 s2 where sb: "subscribe im io_ok s1 = (r2, s2)" by (cases "subscribe im io_ok s1")
    then have "data s2 = data s" using subscribe_data [of im io_ok s1] d1 by simp
    with True c d1 Inr sb show ?thesis by (cases r2; cases ok) (simp_all add: running_setter_def)
  qed
next
  case False
  obtain r s1 where u: "unsubscribe im io_ok (s\<lparr>running := False\<rparr>) = (r, s1)"
    by (cases "unsubscribe im io_ok (s\<lparr>running := False\<rparr>)")
  then have "data s1 = data s" using unsubscribe_data [of im io_ok "s\<lparr>running := False\<rparr>"] by simp
  with False u show ?thesis by (cases r) (auto simp: running_setter_def)
qed

lemma watch_data: "data s k \<noteq> None \<Longrightarrow> data (snd (watch im its s)) k \<noteq> None"
  by (rule watch_preserves [where P = "\<lambda>s. data s k \<noteq> None"])
     (simp_all add: route_message_data)

lemma exec_data: "data s k \<noteq> None \<Longrightarrow> data (exec im oper s) k \<noteq> None"
proof (cases oper)
  case (Thread_run its)
  assume "data s k \<noteq> None"
  then show ?thesis using Thread_run watch_data [of s k im its]
    by (auto simp: thread_run_def split: prod.splits option.splits)
qed (simp_all add: watch_data update_received_def)

lemma exec_all_data: "data s k \<noteq> None \<Longrightarrow> data (exec_all im opers s) k \<noteq> None"
proof (induction opers arbitrary: s)
  case Nil
  then show ?case by simp
next
  case (Cons oper opers)
  have "data (exec im oper s) k \<noteq> None" by (rule exec_data [OF Cons.prems])
  then have "data (exec_all im opers (exec im oper s)) k \<noteq> None" by (rule Cons.IH)
  then show ?case by simp
qed

lemma subscribe_sends:
  assumes "writer (snd (subscribe im io_ok s)) \<noteq> writer s"
  shows "\<exists>out m. writer s = Some out \<and>
           create_message im
             (if data s (ATTR_STREAM_ID im) = None then SUB_MSG im else RESUB_MSG im) s = Inr m \<and>
           writer (snd (subscribe im io_ok s)) = Some (out @ [m])"
proof -
  let ?tmpl = "if data s (ATTR_STREAM_ID im) = None then SUB_MSG im else RESUB_MSG im"
  from assms have go: "\<not> subscribed s \<and> connected s"
    by (auto simp: subscribe_def split: if_splits)
  show ?thesis
  proof (cases "create_message im ?tmpl s")
    case (Inl e)
    with go assms show ?thesis by (simp add: subscribe_def)
  next
    case (Inr m)
    show ?thesis
    proof (cases "writer s")
      case None
      with go Inr assms show ?thesis by (simp add: subscribe_def write'_def)
    next
      case (Some out)
      with go Inr assms show ?thesis
        by (cases io_ok) (simp_all add: subscribe_def write'_def)
    qed
  qed
qed

text \<open>
  C9. Whenever \<open>subscribe\<close> writes to the socket, it writes one message: the message made
  from the fresh-subscribe template while the connection data hold no stream id, and the
  message made from the resubscribe template once \<open>update_received\<close> has stored a stream
  id, whatever operations were performed in between.
\<close>

theorem subscribe_template:
  "(data s (ATTR_STREAM_ID im) = None \<and> writer (snd (subscribe im io_ok s)) \<noteq> writer s \<longrightarrow>
      (\<exists>out m. writer s = Some out \<and> create_message im (SUB_MSG im) s = Inr m \<and>
         writer (snd (subscribe im io_ok s)) = Some (out @ [m]))) \<and>
   (s' = exec_all im opers (update_received im xmldoc s) \<and>
      writer (snd (subscribe im io_ok s')) \<noteq> writer s' \<longrightarrow>
      (\<exists>out m. writer s' = Some out \<and> create_message im (RESUB_MSG im) s' = Inr m \<and>
         writer (snd (subscribe im io_ok s')) = Some (out @ [m])))"
proof (intro conjI impI)
  assume "data s (ATTR_STREAM_ID im) = None \<and> writer (snd (subscribe im io_ok s)) \<noteq> writer s"
  then show "\<exists>out m. writer s = Some out \<and> create_message im (SUB_MSG im) s = Inr m \<and>
         writer (snd (subscribe im io_ok s)) = Some (out @ [m])"
    using subscribe_sends [of im io_ok s] by simp
next
  assume a: "s' = exec_all im opers (update_received im xmldoc s) \<and>
      writer (snd (subscribe im io_ok s')) \<noteq> writer s'"
  have "data (update_received im xmldoc s) (ATTR_STREAM_ID im) \<noteq> None"
    by (simp add: update_received_def)
  then have "data (exec_all im opers (update_received im xmldoc s)) (ATTR_STREAM_ID im) \<noteq> None"
    by (rule exec_all_data)
  with a have ds: "data s' (ATTR_STREAM_ID im) \<noteq> None" by blast
  from a have w: "writer (snd (subscribe im io_ok s')) \<noteq> writer s'" by blast
  from subscribe_sends [OF w] obtain out m where o: "writer s' = Some out"
    and c: "create_message im
              (if data s' (ATTR_STREAM_ID im) = None then SUB_MSG im else RESUB_MSG im) s' = Inr m"
    and r: "writer (snd (subscribe im io_ok s')) = Some (out @ [m])" by blast
  have "(if data s' (ATTR_STREAM_ID im) = None then SUB_MSG im else RESUB_MSG im) = RESUB_MSG im"
    using ds by (simp only: if_False)
  with c have "create_message im (RESUB_MSG im) s' = Inr m" by (simp only:)
  with o r show "\<exists>out m. writer s' = Some out \<and> create_message im (RESUB_MSG im) s' = Inr m \<and>
         writer (snd (subscribe im io_ok s')) = Some (out @ [m])" by blast
qed

theorem subscribe_template_witness:
  "writer (snd (subscribe example_imported True (exec example_imported (Connect True) example_stream)))
     = Some [''SUBSCRIBE <subscribe/>''] \<and>
   writer (snd (subscribe example_imported True
       (exec_all example_imported [Disconnect, Connect True]
          (update_received example_imported example_sid_event
             (snd (subscribe example_imported True
                (exec example_imported (Connect True) example_stream)))))))
     = Some [''SUBSCRIBE <resubscribe/>'']"
proof -
  let ?s = "exec example_imported (Connect True) example_stream"
  let ?t = "snd (subscribe example_imported True ?s)"
  let ?s' = "exec_all example_imported [Disconnect, Connect True]
               (update_received example_imported example_sid_event ?t)"
  have h: "data ?s (ATTR_STREAM_ID example_imported) = None"
    "writer ?s = Some []"
    "writer (snd (subscribe example_imported True ?s)) \<noteq> writer ?s"
    "create_message example_imported (SUB_MSG example_imported) ?s = Inr ''SUBSCRIBE <subscribe/>''"
    "writer ?s' = Some []"
    "writer (snd (subscribe example_imported True ?s')) \<noteq> writer ?s'"
    "create_message example_imported (RESUB_MSG example_imported) ?s' = Inr ''SUBSCRIBE <resubscribe/>''"
    by code_simp+
  show ?thesis
    using subscribe_template [where im = example_imported and s = ?s and io_ok = True
        and s' = ?s and opers = "[]" and xmldoc = example_sid_event]
      subscribe_template [where im = example_imported and s = ?t and io_ok = True
        and s' = ?s' and opers = "[Disconnect, Connect True]" and xmldoc = example_sid_event]
      h
    by auto
qed

subsection \<open>A header block without a content length\<close>

lemma scan_headers_no_content_length:
  "filter is_content_length_header hs = [] \<Longrightarrow>
     snd (scan_headers cl hs) = cl \<and> fst (scan_headers cl hs) \<in> {None, Some ValueError}"
proof (induction hs)
  case Nil
  then show ?case by simp
next
  case (Cons h hs)
  from Cons.prems have nh: "\<not> is_content_length_header h"
    and rest: "filter is_content_length_header hs = []"
    by (auto split: if_splits)
  show ?case
  proof (cases "CHR '':'' \<in> set h")
    case False
    then show ?thesis by (simp add: py_split1_def)
  next
    case True
    with nh have "py_lower (py_strip (takeWhile (\<lambda>x. x \<noteq> CHR '':'') h)) \<noteq> ''content-length''"
      by (simp add: is_content_length_header_def py_split1_def)
    with True Cons.IH [OF rest] show ?thesis by (simp add: py_split1_def)
  qed
qed

lemma filter_tl_empty: "filter P xs = [] \<Longrightarrow> filter P (tl xs) = []"
  by (cases xs) (auto split: if_splits)

lemma parse_headers_no_content_length:
  assumes "py_not (event_content_length s)"
    and "content_length_headers (take p (event_buffer s)) = []"
  shows "fst (parse_headers p s) = Inl ValueError"
proof -
  let ?hs = "tl (py_split HTTP_HEADER_SEPERATOR (take p (event_buffer s)))"
  have "filter is_content_length_header ?hs = []"
    using assms(2) by (simp add: content_length_headers_def filter_tl_empty)
  from scan_headers_no_content_length [OF this, of "event_content_length s"]
  obtain e where sc: "scan_headers (event_content_length s) ?hs = (e, event_content_length s)"
    and e: "e = None \<or> e = Some ValueError"
    by (cases "scan_headers (event_content_length s) ?hs") auto
  from e show ?thesis
    using sc assms(1) by (auto simp: parse_headers_def Let_def)
qed

lemma assemble_no_content_length:
  assumes "py_not (event_content_length s)"
    and "py_find HTTP_HEADER_BODY_SEPERATOR (event_buffer s) = Some p"
    and "content_length_headers (take p (event_buffer s)) = []"
  shows "fst (assemble s) = Inl ValueError"
proof -
  obtain r s' where ph: "parse_headers p s = (r, s')" by (cases "parse_headers p s")
  with parse_headers_no_content_length [OF assms(1,3)] have "r = Inl ValueError" by simp
  with ph assms(1,2) show ?thesis by (simp add: assemble_def)
qed

lemma lost_connect_connected:
  "connected s \<Longrightarrow>
     \<not> connected (lost_connect s) \<and> \<not> subscribed (lost_connect s) \<and> \<not> running (lost_connect s) \<and>
     calls (lost_connect s) = calls s @ (if on_lost_function s then [On_lost_function] else [])"
  by (simp add: lost_connect_def disconnect_def Let_def)

text \<open>
  C4. When the separator is found and no line of the header block before it is a
  content-length header, \<open>_parse_headers\<close> raises ValueError. The watch loop of a
  connected, subscribed object answers the error of the read by disconnecting (the three
  session flags are false afterwards) and by calling the on-lost callback, if one was given;
  \<open>watch\<close> itself returns without raising.
\<close>

theorem missing_content_length:
  assumes "py_find HTTP_HEADER_BODY_SEPERATOR buf = Some p"
    and "content_length_headers (take p buf) = []"
  shows "(py_not (event_content_length s) \<and> event_buffer s = buf \<longrightarrow>
            fst (parse_headers p s) = Inl ValueError) \<and>
         (subscribed s \<and> connected s \<and> is_alive (check_clock it) s \<and>
          polls it = Readable chunks e # ps \<and> drain chunks e [] = (buf, Empty_read) \<longrightarrow>
            fst (watch im (it # its) s) = Some (Inr ()) \<and>
            \<not> connected (snd (watch im (it # its) s)) \<and>
            \<not> subscribed (snd (watch im (it # its) s)) \<and>
            \<not> running (snd (watch im (it # its) s)) \<and>
            calls (snd (watch im (it # its) s))
              = calls s @ (if on_lost_function s then [On_lost_function] else []))"
proof -
  have first: "fst (parse_headers p s) = Inl ValueError"
    if "py_not (event_content_length s) \<and> event_buffer s = buf"
    using that parse_headers_no_content_length [of s p] assms(2) by simp
  have second: "fst (watch im (it # its) s) = Some (Inr ()) \<and>
            \<not> connected (snd (watch im (it # its) s)) \<and>
            \<not> subscribed (snd (watch im (it # its) s)) \<and>
            \<not> running (snd (watch im (it # its) s)) \<and>
            calls (snd (watch im (it # its) s))
              = calls s @ (if on_lost_function s then [On_lost_function] else [])"
    if a: "subscribed s \<and> connected s \<and> is_alive (check_clock it) s \<and>
          polls it = Readable chunks e # ps \<and> drain chunks e [] = (buf, Empty_read)"
  proof -
    let ?s0 = "s\<lparr>event_buffer := [], event_content_length := None\<rparr>"
    let ?s1 = "?s0\<lparr>event_buffer := buf\<rparr>"
    obtain r s2 where as: "assemble ?s1 = (r, s2)" by (cases "assemble ?s1")
    have "fst (assemble ?s1) = Inl ValueError"
      by (rule assemble_no_content_length [where p = p]) (simp_all add: assms py_not_def)
    with as have r: "r = Inl ValueError" by simp
    obtain b c where s2: "s2 = ?s1\<lparr>event_buffer := b, event_content_length := c\<rparr>"
      using assemble_frame [of ?s1] as by auto
    have rd: "read_one_response_or_timeout im (polls it) ?s0 = (Some (Inl ValueError), s2)"
      using a as r by simp
    let ?s3 = "lost_connect (s2\<lparr>isy_log := isy_log s2 @ [Read_error ValueError]\<rparr>)"
    have w: "watch im (it # its) s = (Some (Inr ()), ?s3)"
      using a rd by (simp add: watch_def is_alive_def heartbeat_time_def)
    have "connected (s2\<lparr>isy_log := isy_log s2 @ [Read_error ValueError]\<rparr>)"
      using a s2 by simp
    from lost_connect_connected [OF this] s2
    have "\<not> connected ?s3 \<and> \<not> subscribed ?s3 \<and> \<not> running ?s3 \<and>
          calls ?s3 = calls s @ (if on_lost_function s then [On_lost_function] else [])"
      by simp
    with w show ?thesis by simp
  qed
  from first second show ?thesis by blast
qed

theorem missing_content_length_witness:
  "fst (parse_headers 35 (example_stream\<lparr>event_buffer := example_headers_only\<rparr>)) = Inl ValueError \<and>
   fst (watch example_imported [example_iteration example_headers_only] example_running)
     = Some (Inr ()) \<and>
   \<not> connected (snd (watch example_imported [example_iteration example_headers_only]
                      example_running)) \<and>
   calls (snd (watch example_imported [example_iteration example_headers_only] example_running))
     = [On_lost_function]"
proof -
  let ?it = "example_iteration example_headers_only"
  have h: "py_find HTTP_HEADER_BODY_SEPERATOR example_headers_only = Some 35"
    "content_length_headers (take 35 example_headers_only) = []"
    "py_not (event_content_length (example_stream\<lparr>event_buffer := example_headers_only\<rparr>))"
    "subscribed example_running" "connected example_running"
    "is_alive (check_clock ?it) example_running"
    "polls ?it = Readable [example_headers_only] Empty_read # []"
    "drain [example_headers_only] Empty_read [] = (example_headers_only, Empty_read)"
    "calls example_running = []" "on_lost_function example_running"
    by code_simp+
  show ?thesis
    using missing_content_length [OF h(1,2),
        where s = "example_stream\<lparr>event_buffer := example_headers_only\<rparr>"]
      missing_content_length [OF h(1,2), where s = example_running and it = ?it
        and chunks = "[example_headers_only]" and e = Empty_read and ps = "[]"
        and im = example_imported and its = "[]"]
      h(3-10)
    by simp
qed

subsection \<open>Finding the separator\<close>







lemma separator_length [simp]: "length HTTP_HEADER_BODY_SEPERATOR = 4"
  by (simp add: HTTP_HEADER_BODY_SEPERATOR_def)




subsection \<open>One pass of the assembler on well-formed frames\<close>

















subsection \<open>A run of feeds\<close>













subsection \<open>Frames split over reads\<close>


text \<open>
  Two whole frames delivered by one read: the call returns the first body and the second
  frame stays in the buffer, where only a later read finds it.
\<close>

lemma two_frames_in_one_read:
  "fst (read_all example_imported
     [received (frame_bytes (''POST reuse HTTP/1.1'' @ HTTP_HEADER_SEPERATOR @ ''Content-Length: 1'', ''A'')
        @ frame_bytes (''POST reuse HTTP/1.1'' @ HTTP_HEADER_SEPERATOR @ ''Content-Length: 1'', ''B''))]
     example_stream) = Inr [''A''] \<and>
   event_buffer (snd (read_all example_imported
     [received (frame_bytes (''POST reuse HTTP/1.1'' @ HTTP_HEADER_SEPERATOR @ ''Content-Length: 1'', ''A'')
        @ frame_bytes (''POST reuse HTTP/1.1'' @ HTTP_HEADER_SEPERATOR @ ''Content-Length: 1'', ''B''))]
     example_stream))
   = frame_bytes (''POST reuse HTTP/1.1'' @ HTTP_HEADER_SEPERATOR @ ''Content-Length: 1'', ''B'')"
  by code_simp



end
